theory Spec2Isabelle
  imports Main "HOL-Library.Sublist"
begin

section \<open>The pooled PostgreSQL adapter (postgres8.js)\<close>

text \<open>
  The adapter talks to three collaborators: the connection pool (\<open>pool._isFull\<close>,
  \<open>pool.connect\<close>), the client handed out by the pool (\<open>client.query\<close>) and the base
  adapter (\<open>queryClient\<close>, \<open>beginClient\<close>, \<open>escapeField\<close>, the \<open>db\<close> log hooks).
  Their answers are parameters of the model, collected in the record \<open>env\<close>; what the
  adapter does with them is a trace of events, in the order in which the effects happen.
  Every collaborator is taken to call its continuation exactly once, and the trace is the
  one of a single invocation.
\<close>

subsection \<open>Values, events and the environment\<close>

datatype error = Error (message: string)

type_synonym param = string

text \<open>A call of \<open>client.query\<close>: the SQL text and the parameter array (\<open>None\<close> when absent).\<close>

type_synonym call = "string \<times> param list option"

text \<open>The function that receives the completion: the caller's own, or the substituted no-op.\<close>

datatype handler = Caller | Noop

text \<open>The arguments of a completion: \<open>(err)\<close>, \<open>(null, result)\<close>, \<open>(null, results)\<close> or
  \<open>(null, new Transaction(...))\<close>.\<close>

datatype 'r cbarg = CbErr error | CbResult 'r | CbResults "'r list" | CbTransaction

datatype 'r event =
    IsFull bool
  | Connect "error option"
  | Complete
  | BeginClient "error option"
  | QueryClient string "param list" "error + 'r"
  | ClientQuery string "param list option" "error + 'r"
  | DbError string
  | DbInfo string
  | DbLog string "param list"
  | Callback handler "'r cbarg"

type_synonym 'r trace = "'r event list"

text \<open>
  \<open>pool_isFull\<close> is the answer of \<open>pool._isFull()\<close>; \<open>pool_connect\<close> is the error passed by
  \<open>pool.connect\<close> (\<open>None\<close>: a client was acquired); \<open>beginClient\<close> and \<open>queryClient\<close> are
  the base adapter's capabilities; \<open>client_query\<close> answers a query sent over the acquired
  client, given the calls made on that client before.
\<close>

record 'r env =
  pool_isFull :: bool
  pool_connect :: "error option"
  beginClient :: "error option"
  queryClient :: "string \<Rightarrow> param list \<Rightarrow> error + 'r"
  client_query :: "call list \<Rightarrow> string \<Rightarrow> param list option \<Rightarrow> error + 'r"

text \<open>The arguments as JavaScript passes them: any value may stand where an array or a
  function is expected. A completion is a function that returns when it is called
  (\<open>Callable\<close>), a function that raises an exception when it is called (\<open>Throwing\<close>), or
  a value that is not a function (\<open>NotCallable\<close>).\<close>

datatype jsparams = ParamsArray "param list" | ParamsOther

datatype completion = Callable | Throwing | NotCallable

datatype prepared = Statements "call list" | Delimited string

subsection \<open>Projections of a trace\<close>

fun calls :: "'r trace \<Rightarrow> call list" where
  "calls [] = []"
| "calls (ClientQuery sql ps out # tr) = (sql, ps) # calls tr"
| "calls (e # tr) = calls tr"

fun outcomes :: "'r trace \<Rightarrow> (error + 'r) list" where
  "outcomes [] = []"
| "outcomes (ClientQuery sql ps out # tr) = out # outcomes tr"
| "outcomes (e # tr) = outcomes tr"

fun callbacks :: "'r trace \<Rightarrow> (handler \<times> 'r cbarg) list" where
  "callbacks [] = []"
| "callbacks (Callback h a # tr) = (h, a) # callbacks tr"
| "callbacks (e # tr) = callbacks tr"

fun is_connect :: "'r event \<Rightarrow> bool" where
  "is_connect (Connect err) = True"
| "is_connect e = False"

fun is_callback :: "'r event \<Rightarrow> bool" where
  "is_callback (Callback h a) = True"
| "is_callback e = False"

fun succeeded :: "error + 'r \<Rightarrow> bool" where
  "succeeded (Inr r) = True"
| "succeeded (Inl e) = False"

subsection \<open>String.prototype.split and Array.prototype.join\<close>

text \<open>\<open>split_from sep cur s\<close> scans \<open>s\<close> from the left; \<open>cur\<close> is the piece read since the
  last separator. Matches are leftmost and do not overlap.\<close>

function split_from :: "string \<Rightarrow> string \<Rightarrow> string \<Rightarrow> string list" where
  "split_from sep cur [] = [cur]"
| "split_from sep cur (c # cs) =
     (if sep \<noteq> [] \<and> prefix sep (c # cs)
      then cur # split_from sep [] (drop (length sep) (c # cs))
      else split_from sep (cur @ [c]) cs)"
  by pat_completeness auto
termination
  by (relation "measure (\<lambda>(sep, cur, s). length s)") (auto simp: neq_Nil_conv)

definition split :: "string \<Rightarrow> string \<Rightarrow> string list" where
  "split sep s = split_from sep [] s"

fun join :: "string \<Rightarrow> string list \<Rightarrow> string" where
  "join sep [] = []"
| "join sep [x] = x"
| "join sep (x # y # ys) = x @ sep @ join sep (y # ys)"

fun includes_str :: "string \<Rightarrow> string \<Rightarrow> bool" where
  "includes_str sep [] = (sep = [])"
| "includes_str sep (c # cs) = (prefix sep (c # cs) \<or> includes_str sep cs)"

subsection \<open>createTransaction\<close>

text \<open>The callback is called on every path without a \<open>typeof\<close> test; it is a function.
  It is the last step on every path, so that an exception it raises leaves no step of the
  adapter out.\<close>

definition createTransaction :: "'r env \<Rightarrow> 'r trace" where
  "createTransaction env =
     (if pool_isFull env then [IsFull True, Callback Caller (CbErr (Error ''Pool is full''))]
      else
        (case pool_connect env of
           Some err \<Rightarrow> [IsFull False, Connect (Some err), Complete, Callback Caller (CbErr err)]
         | None \<Rightarrow>
             (case beginClient env of
                Some err \<Rightarrow>
                  [IsFull False, Connect None, BeginClient (Some err), Complete,
                   Callback Caller (CbErr err)]
              | None \<Rightarrow>
                  [IsFull False, Connect None, BeginClient None,
                   Callback Caller CbTransaction])))"

subsection \<open>query\<close>

text \<open>\<open>Inl\<close> is the error thrown by the argument checks; \<open>argc\<close> is \<open>arguments.length\<close>.
  The completion is the last step on every path, after \<open>complete()\<close>, so that an exception
  it raises leaves no step of the adapter out.\<close>

definition query :: "'r env \<Rightarrow> nat \<Rightarrow> string \<Rightarrow> jsparams \<Rightarrow> completion \<Rightarrow> error + 'r trace" where
  "query env argc q params callback =
     (if argc < 3 then Inl (Error ''.query requires 3 arguments'')
      else
        (case params of
           ParamsOther \<Rightarrow> Inl (Error ''params must be a valid array'')
         | ParamsArray ps \<Rightarrow>
             (if callback = NotCallable then Inl (Error ''Callback must be a function'')
              else if pool_isFull env
              then Inr [IsFull True, Callback Caller (CbErr (Error ''Pool is full''))]
              else
                (case pool_connect env of
                   Some err \<Rightarrow>
                     Inr [IsFull False, Connect (Some err), DbError (message err), Complete,
                          Callback Caller (CbErr err)]
                 | None \<Rightarrow>
                     (case queryClient env q ps of
                        Inl err \<Rightarrow>
                          Inr [IsFull False, Connect None, QueryClient q ps (Inl err), Complete,
                               Callback Caller (CbErr err)]
                      | Inr results \<Rightarrow>
                          Inr [IsFull False, Connect None, QueryClient q ps (Inr results),
                               Complete, Callback Caller (CbResult results)])))))"

subsection \<open>transaction\<close>

text \<open>A task of the series: it extends the trace and passes an error or a result on.\<close>

type_synonym 'r task = "'r trace \<Rightarrow> (error + 'r) \<times> 'r trace"

text \<open>\<open>client.query(sql, params, callback)\<close> on the acquired client.\<close>

definition client_query_call :: "'r env \<Rightarrow> string \<Rightarrow> param list option \<Rightarrow> 'r task" where
  "client_query_call env sql ps tr =
     (let out = client_query env (calls tr) sql ps in (out, tr @ [ClientQuery sql ps out]))"

text \<open>
  Modelled from the spec: \<open>async.series\<close> comes from the \<open>async\<close> package, which the
  adapter requires and which is not part of this file. The spec describes it as a plain
  sequential loop with early exit on the first failure: the tasks run one after the
  other, the first task that passes an error ends the series and that error goes to the
  final callback; otherwise the final callback receives the array of the results of all
  the tasks that were handed to the series, in task order.
\<close>

fun async_series :: "'r task list \<Rightarrow> 'r trace \<Rightarrow> (error + 'r list) \<times> 'r trace" where
  "async_series [] tr = (Inr [], tr)"
| "async_series (t # ts) tr =
     (case t tr of
        (Inl err, tr') \<Rightarrow> (Inl err, tr')
      | (Inr r, tr') \<Rightarrow>
          (case async_series ts tr' of
             (Inl err, tr'') \<Rightarrow> (Inl err, tr'')
           | (Inr rs, tr'') \<Rightarrow> (Inr (r # rs), tr'')))"

text \<open>The task built from one element of \<open>preparedArray\<close>; the elapsed time that
  \<open>db.log\<close> also receives is left out of the event.\<close>

definition statement_task :: "'r env \<Rightarrow> call \<Rightarrow> 'r task" where
  "statement_task env queryData tr =
     (let query = fst queryData;
          params = (case snd queryData of None \<Rightarrow> [] | Some ps \<Rightarrow> ps)
      in client_query_call env (fst queryData) (snd queryData) (tr @ [DbLog query params]))"

text \<open>
  The completion that a continuation calls: who receives the call, and whether the call
  returns. \<open>invoke callback a rest\<close> calls it with the arguments \<open>a\<close>; the steps \<open>rest\<close>
  that follow the call in the same continuation happen only when the call returns, since
  no \<open>try\<close> encloses it.
\<close>

type_synonym callee = "handler \<times> bool"

definition invoke :: "callee \<Rightarrow> 'r cbarg \<Rightarrow> 'r trace \<Rightarrow> 'r trace" where
  "invoke callback a rest = Callback (fst callback) a # (if snd callback then rest else [])"

text \<open>The final callback of the series, \<open>(txnErr, results) => {...}\<close>: rollback or commit,
  then the completion and the release.\<close>

definition series_done :: "'r env \<Rightarrow> callee \<Rightarrow> error + 'r list \<Rightarrow> 'r trace \<Rightarrow> 'r trace" where
  "series_done env callback res tr =
     (case res of
        Inl txnErr \<Rightarrow>
          (case client_query_call env ''ROLLBACK'' None
                  (tr @ [DbError (message txnErr), DbInfo ''Rollback started...'']) of
             (Inl err, tr') \<Rightarrow>
               tr' @ [DbError (''Rollback failed - '' @ message err),
                      DbInfo ''Transaction complete!''] @
                 invoke callback (CbErr err) [Complete]
           | (Inr r, tr') \<Rightarrow>
               tr' @ [DbInfo ''Rollback complete!'', DbInfo ''Transaction complete!''] @
                 invoke callback (CbErr txnErr) [Complete])
      | Inr results \<Rightarrow>
          (case client_query_call env ''COMMIT'' None (tr @ [DbInfo ''Commit started...'']) of
             (Inl err, tr') \<Rightarrow>
               tr' @ [DbError (''Commit failed - '' @ message err),
                      DbInfo ''Transaction complete!'', Complete] @
                 invoke callback (CbErr err) []
           | (Inr r, tr') \<Rightarrow>
               tr' @ [DbInfo ''Commit complete!'', DbInfo ''Transaction complete!'',
                      Complete] @
                 invoke callback (CbResults results) []))"

text \<open>The body of the \<open>pool.connect\<close> continuation once a client was acquired.\<close>

definition transaction_connected :: "'r env \<Rightarrow> call list \<Rightarrow> callee \<Rightarrow> 'r trace \<Rightarrow> 'r trace" where
  "transaction_connected env preparedArray callback tr0 =
     (let queries = map (statement_task env) preparedArray;
          queries = client_query_call env ''BEGIN'' None # queries
      in
        (case async_series queries (tr0 @ [DbInfo ''Transaction started...'']) of
           (res, tr) \<Rightarrow> series_done env callback res tr))"

fun prepared_length :: "prepared \<Rightarrow> nat" where
  "prepared_length (Statements ss) = length ss"
| "prepared_length (Delimited s) = length s"

fun statements_of :: "prepared \<Rightarrow> call list" where
  "statements_of (Statements ss) = ss"
| "statements_of (Delimited s) = map (\<lambda>v. (v, None)) (filter (\<lambda>v. v \<noteq> []) (split '';'' s))"

text \<open>\<open>if (typeof callback !== 'function') callback = function() {}\<close>: who receives the
  completion, and whether the call returns.\<close>

fun handler_of :: "completion \<Rightarrow> handler" where
  "handler_of Callable = Caller"
| "handler_of Throwing = Caller"
| "handler_of NotCallable = Noop"

fun returns :: "completion \<Rightarrow> bool" where
  "returns Callable = True"
| "returns Throwing = False"
| "returns NotCallable = True"

text \<open>\<open>Inl\<close> is the error thrown by the check of \<open>preparedArray\<close>. An exception raised by
  the completion ends the continuation that called it: the trace stops at that call.\<close>

definition transaction :: "'r env \<Rightarrow> prepared \<Rightarrow> completion \<Rightarrow> error + 'r trace" where
  "transaction env preparedArray callback =
     (if prepared_length preparedArray = 0
      then Inl (Error ''Must give valid array of statements (with or without parameters)'')
      else
        (let preparedArray = statements_of preparedArray;
             callback = (handler_of callback, returns callback)
         in
           (if pool_isFull env
            then Inr (IsFull True # invoke callback (CbErr (Error ''Pool is full'')) [])
            else
              (case pool_connect env of
                 Some err \<Rightarrow>
                   Inr ([IsFull False, Connect (Some err), DbError (message err)] @
                        invoke callback (CbErr err) [Complete])
               | None \<Rightarrow>
                   Inr (transaction_connected env preparedArray callback
                          [IsFull False, Connect None])))))"

subsection \<open>generateOrderByClause\<close>

text \<open>An entry of a join group; only its \<open>joinAlias\<close> is read.\<close>

record joinObj =
  joinAlias :: string

text \<open>
  An element of \<open>orderByArray\<close>. \<open>transformation\<close> is a function over the escaped
  columns (its result as the template literal prints it), \<open>None\<close> when the property is
  not set; \<open>escapedColumns\<close> is the property that the builder assigns, \<open>None\<close> while it
  is not set.
\<close>

record orderBy =
  columnNames :: "string list"
  direction :: string
  transformation :: "(string list \<Rightarrow> string) option"
  escapedColumns :: "string list option"

text \<open>\<open>joinArray.every(joinObj => { join = joinObj.find(...); return !join; })\<close>: the
  value of \<open>join\<close> when the iteration stops.\<close>

fun every_find :: "(joinObj \<Rightarrow> bool) \<Rightarrow> joinObj list list \<Rightarrow> joinObj option" where
  "every_find p [] = None"
| "every_find p (g # gs) =
     (case find p g of Some j \<Rightarrow> Some j | None \<Rightarrow> every_find p gs)"

text \<open>The callback of \<open>v.columnNames.map\<close>; \<open>None\<close> is \<open>null\<close>.\<close>

definition escapeColumn ::
  "(string \<Rightarrow> string) \<Rightarrow> string \<Rightarrow> joinObj list list option \<Rightarrow> string \<Rightarrow> string option" where
  "escapeColumn escapeField table joinArray columnName =
     (let columnNameComponents = split ''__'' columnName in
        if length columnNameComponents = 1
        then Some (escapeField table @ ''.'' @ escapeField columnName)
        else
          (case joinArray of
             Some groups \<Rightarrow>
               (case every_find
                       (\<lambda>j. joinAlias j = join ''__'' (butlast columnNameComponents)) groups of
                  None \<Rightarrow> Some (escapeField table @ ''.'' @ escapeField columnName)
                | Some j \<Rightarrow>
                    Some (escapeField (joinAlias j) @ ''.'' @
                          escapeField (last columnNameComponents)))
           | None \<Rightarrow> None))"

text \<open>\<open>.filter(columnName => !!columnName)\<close>: \<open>null\<close> and the empty string are dropped.\<close>

fun truthy :: "string option list \<Rightarrow> string list" where
  "truthy [] = []"
| "truthy (None # cs) = truthy cs"
| "truthy (Some s # cs) = (if s = [] then truthy cs else s # truthy cs)"

definition escapeColumns ::
  "(string \<Rightarrow> string) \<Rightarrow> string \<Rightarrow> joinObj list list option \<Rightarrow> string list \<Rightarrow> string list" where
  "escapeColumns escapeField table joinArray names =
     truthy (map (escapeColumn escapeField table joinArray) names)"

text \<open>\<open>v.escapedColumns.length\<close>, read by the second filter.\<close>

definition escaped_length :: "orderBy \<Rightarrow> nat" where
  "escaped_length v = (case escapedColumns v of None \<Rightarrow> 0 | Some cs \<Rightarrow> length cs)"

text \<open>One term of the clause; the default transformation \<open>v => v\<close> keeps its first
  argument.\<close>

definition order_term :: "orderBy \<Rightarrow> string" where
  "order_term v =
     (let cs = (case escapedColumns v of None \<Rightarrow> [] | Some cs \<Rightarrow> cs) in
        (case transformation v of
           Some f \<Rightarrow> f cs
         | None \<Rightarrow> (case cs of [] \<Rightarrow> ''undefined'' | c # rest \<Rightarrow> c)) @ '' '' @ direction v)"

text \<open>The builder returns the fragment; the second component is \<open>orderByArray\<close> as the
  call leaves it, since the first \<open>map\<close> assigns \<open>v.escapedColumns\<close> on each element.\<close>

definition generateOrderByClause ::
  "(string \<Rightarrow> string) \<Rightarrow> string \<Rightarrow> orderBy list \<Rightarrow> string list \<Rightarrow> joinObj list list option
     \<Rightarrow> string \<times> orderBy list" where
  "generateOrderByClause escapeField table orderByArray groupByArray joinArray =
     (let assigned =
            map (\<lambda>v. v\<lparr>escapedColumns :=
                        Some (escapeColumns escapeField table joinArray (columnNames v))\<rparr>)
              orderByArray;
          columnEscapedOrderByArray = filter (\<lambda>v. escaped_length v \<noteq> 0) assigned
      in
        (if columnEscapedOrderByArray = [] then []
         else '' ORDER BY '' @ join '', '' (map order_term columnEscapedOrderByArray),
         assigned))"

text \<open>Modelled from the spec: \<open>escapeField\<close> is the base adapter's identifier escaping,
  which is not part of this file; the spec's examples show an identifier wrapped in double
  quotes.\<close>

definition escapeField_quote :: "string \<Rightarrow> string" where
  "escapeField_quote name = [CHR 0x22] @ name @ [CHR 0x22]"

subsection \<open>Notions used in the statements\<close>

text \<open>Events that are neither a pool operation nor a completion: queries on the client
  and log entries.\<close>

fun quiet :: "'r event \<Rightarrow> bool" where
  "quiet (ClientQuery sql ps out) = True"
| "quiet (DbLog q ps) = True"
| "quiet (DbInfo m) = True"
| "quiet (DbError m) = True"
| "quiet e = False"

text \<open>The same event with the completion sent to the no-op instead.\<close>

fun via_noop :: "'r event \<Rightarrow> 'r event" where
  "via_noop (Callback h a) = Callback Noop a"
| "via_noop e = e"

text \<open>The trace of a call that did not throw.\<close>

fun trace_of :: "error + 'r trace \<Rightarrow> 'r trace" where
  "trace_of (Inr tr) = tr"
| "trace_of (Inl e) = []"

text \<open>The join-alias chain and the trailing segment of a column reference, as
  \<open>generateOrderByClause\<close> takes them from the components.\<close>

definition chain :: "string \<Rightarrow> string" where
  "chain columnName = join ''__'' (butlast (split ''__'' columnName))"

definition trailing :: "string \<Rightarrow> string" where
  "trailing columnName = last (split ''__'' columnName)"

text \<open>
  The resolution of one column reference in the words of the specification: a reference
  without the separator is qualified with the base table; otherwise, when join groups are
  passed, the first entry of the groups, searched in order, whose alias is the chain
  qualifies the trailing segment, and without such an entry the base table qualifies the
  full reference; when no join groups are passed the reference resolves to nothing.
\<close>

definition spec_resolve ::
  "(string \<Rightarrow> string) \<Rightarrow> string \<Rightarrow> joinObj list list option \<Rightarrow> string \<Rightarrow> string option" where
  "spec_resolve escapeField table joinGroups reference =
     (if \<not> includes_str ''__'' reference
      then Some (escapeField table @ ''.'' @ escapeField reference)
      else
        (case joinGroups of
           None \<Rightarrow> None
         | Some groups \<Rightarrow>
             (case find (\<lambda>entry. joinAlias entry = chain reference) (concat groups) of
                Some entry \<Rightarrow>
                  Some (escapeField (joinAlias entry) @ ''.'' @ escapeField (trailing reference))
              | None \<Rightarrow> Some (escapeField table @ ''.'' @ escapeField reference))))"

text \<open>The resolved columns of an order spec in the words of the specification: every
  reference is resolved, in order, and those that resolve to nothing are dropped.\<close>

definition spec_resolved_columns ::
  "(string \<Rightarrow> string) \<Rightarrow> string \<Rightarrow> joinObj list list option \<Rightarrow> orderBy \<Rightarrow> string list" where
  "spec_resolved_columns escapeField table joinGroups v =
     List.map_filter (spec_resolve escapeField table joinGroups) (columnNames v)"

subsection \<open>Sample environments and inputs\<close>

text \<open>A backend on which everything succeeds; the result of a query names its text.\<close>

definition env_ok :: "string env" where
  "env_ok =
     \<lparr>pool_isFull = False, pool_connect = None, beginClient = None,
      queryClient = (\<lambda>q ps. Inr (''rows of '' @ q)),
      client_query = (\<lambda>h q ps. Inr (''rows of '' @ q))\<rparr>"

text \<open>The same backend, on which the statement \<open>S2\<close> fails.\<close>

definition env_S2_fails :: "string env" where
  "env_S2_fails =
     env_ok\<lparr>client_query :=
       (\<lambda>h q ps. if q = ''S2'' then Inl (Error ''S2 failed'') else Inr (''rows of '' @ q))\<rparr>"

text \<open>\<open>S2\<close> fails, and so does the rollback.\<close>

definition env_rollback_fails :: "string env" where
  "env_rollback_fails =
     env_ok\<lparr>client_query :=
       (\<lambda>h q ps. if q = ''S2'' then Inl (Error ''S2 failed'')
                  else if q = ''ROLLBACK'' then Inl (Error ''rollback failed'')
                  else Inr (''rows of '' @ q))\<rparr>"

definition env_full :: "string env" where
  "env_full = env_ok\<lparr>pool_isFull := True\<rparr>"

definition env_connect_fails :: "string env" where
  "env_connect_fails = env_ok\<lparr>pool_connect := Some (Error ''connect failed'')\<rparr>"

definition batch2 :: prepared where
  "batch2 = Statements [(''S1'', None), (''S2'', None)]"

definition batch3 :: prepared where
  "batch3 = Statements [(''S1'', None), (''S2'', Some [''p'']), (''S3'', None)]"

definition order_by_name :: orderBy where
  "order_by_name =
     \<lparr>columnNames = [''name''], direction = ''ASC'', transformation = None,
      escapedColumns = None\<rparr>"

definition order_by_bio :: orderBy where
  "order_by_bio =
     \<lparr>columnNames = [''profile__bio''], direction = ''DESC'', transformation = None,
      escapedColumns = None\<rparr>"

definition joins_profile :: "joinObj list list" where
  "joins_profile = [[\<lparr>joinAlias = ''owner''\<rparr>], [\<lparr>joinAlias = ''profile''\<rparr>]]"

definition joins_owner :: "joinObj list list" where
  "joins_owner = [[\<lparr>joinAlias = ''owner''\<rparr>]]"

section \<open>Properties\<close>

subsection \<open>Traces\<close>

lemma calls_append [simp]: "calls (a @ b) = calls a @ calls b"
  by (induction a rule: calls.induct) simp_all

lemma outcomes_append [simp]: "outcomes (a @ b) = outcomes a @ outcomes b"
  by (induction a rule: outcomes.induct) simp_all

lemma callbacks_append [simp]: "callbacks (a @ b) = callbacks a @ callbacks b"
  by (induction a rule: callbacks.induct) simp_all

lemma quiet_callbacks: "list_all quiet tr \<Longrightarrow> callbacks tr = []"
  by (induction tr rule: callbacks.induct) simp_all

lemma quiet_count_Complete: "list_all quiet tr \<Longrightarrow> count_list tr Complete = 0"
  by (induction tr) auto

lemma series_statements:
  "async_series (map (statement_task env) ss) tr = (res, tr') \<Longrightarrow>
   \<exists>ext. tr' = tr @ ext \<and> list_all quiet ext \<and>
     (case res of
        Inr rs \<Rightarrow> calls ext = ss \<and> outcomes ext = map Inr rs \<and> length rs = length ss
      | Inl e \<Rightarrow> \<exists>k rs. 0 < k \<and> k \<le> length ss \<and> length rs + 1 = k \<and> calls ext = take k ss \<and>
                   outcomes ext = map Inr rs @ [Inl e])"
proof (induction ss arbitrary: tr res tr')
  case Nil
  then show ?case by auto
next
  case (Cons s ss)
  obtain out tr1 where t: "statement_task env s tr = (out, tr1)"
    by (cases "statement_task env s tr")
  then have tr1: "tr1 = tr @ [DbLog (fst s) (case snd s of None \<Rightarrow> [] | Some ps \<Rightarrow> ps),
                               ClientQuery (fst s) (snd s) out]"
    by (auto simp: statement_task_def client_query_call_def Let_def)
  show ?case
  proof (cases out)
    case (Inl e)
    with Cons.prems t have "res = Inl e" "tr' = tr1" by auto
    with tr1 Inl show ?thesis
      by (auto intro!: exI[of _ 1] exI[of _ "[]"])
  next
    case (Inr r)
    obtain res2 tr2 where s2: "async_series (map (statement_task env) ss) tr1 = (res2, tr2)"
      by (cases "async_series (map (statement_task env) ss) tr1")
    from Cons.IH[OF s2] obtain ext where ext: "tr2 = tr1 @ ext" "list_all quiet ext"
      "(case res2 of
        Inr rs \<Rightarrow> calls ext = ss \<and> outcomes ext = map Inr rs \<and> length rs = length ss
      | Inl e \<Rightarrow> \<exists>k rs. 0 < k \<and> k \<le> length ss \<and> length rs + 1 = k \<and> calls ext = take k ss \<and>
                   outcomes ext = map Inr rs @ [Inl e])" by blast
    show ?thesis
    proof (cases res2)
      case (Inl e)
      with Cons.prems t Inr s2 have r: "res = Inl e" "tr' = tr2" by auto
      from ext(3) Inl obtain k rs where k: "0 < k" "k \<le> length ss" "length rs + 1 = k"
        "calls ext = take k ss" "outcomes ext = map Inr rs @ [Inl e]" by auto
      show ?thesis
        unfolding r using ext(1,2) tr1 k Inr
        by (auto intro!: exI[of _ "Suc k"] exI[of _ "r # rs"])
    next
      case (Inr rs)
      with Cons.prems t \<open>out = Inr r\<close> s2 have r: "res = Inr (r # rs)" "tr' = tr2" by auto
      show ?thesis
        unfolding r using ext tr1 Inr \<open>out = Inr r\<close> by auto
    qed
  qed
qed


lemma series_shape:
  assumes ser: "async_series (client_query_call env ''BEGIN'' None # map (statement_task env) ss)
            (tr0 @ [DbInfo ''Transaction started...'']) = (res, tr3)"
  shows "\<exists>ext. tr3 = tr0 @ ext \<and> list_all quiet ext \<and>
     (case res of
        Inr rs \<Rightarrow> calls ext = (''BEGIN'', None) # ss \<and> outcomes ext = map Inr rs \<and>
                  length rs = Suc (length ss)
      | Inl e \<Rightarrow> \<exists>k rs. k \<le> length ss \<and> length rs = k \<and>
                   calls ext = (''BEGIN'', None) # take k ss \<and>
                   outcomes ext = map Inr rs @ [Inl e])"
proof -
  define tr1 where "tr1 = tr0 @ [DbInfo ''Transaction started...'']"
  define b where "b = client_query env (calls tr1) ''BEGIN'' None"
  define tr2 where "tr2 = tr1 @ [ClientQuery ''BEGIN'' None b]"
  have bq: "client_query_call env ''BEGIN'' None tr1 = (b, tr2)"
    by (simp add: client_query_call_def Let_def b_def tr2_def)
  note ser = ser[folded tr1_def]
  show ?thesis
  proof (cases b)
    case (Inl e)
    with ser bq have "res = Inl e" "tr3 = tr2" by auto
    then show ?thesis
      using Inl by (auto simp: tr2_def tr1_def intro!: exI[of _ "[]"])
  next
    case (Inr r)
    obtain res2 tr4 where s2: "async_series (map (statement_task env) ss) tr2 = (res2, tr4)"
      by (cases "async_series (map (statement_task env) ss) tr2")
    from series_statements[OF s2] obtain ext where ext: "tr4 = tr2 @ ext" "list_all quiet ext"
      "(case res2 of
        Inr rs \<Rightarrow> calls ext = ss \<and> outcomes ext = map Inr rs \<and> length rs = length ss
      | Inl e \<Rightarrow> \<exists>k rs. 0 < k \<and> k \<le> length ss \<and> length rs + 1 = k \<and> calls ext = take k ss \<and>
                   outcomes ext = map Inr rs @ [Inl e])" by blast
    show ?thesis
    proof (cases res2)
      case (Inl e)
      with ser bq Inr s2 have r: "res = Inl e" "tr3 = tr4" by auto
      from ext(3) Inl obtain k rs where k: "0 < k" "k \<le> length ss" "length rs + 1 = k"
        "calls ext = take k ss" "outcomes ext = map Inr rs @ [Inl e]" by auto
      show ?thesis
        unfolding r using ext(1,2) k Inr
        by (auto simp: tr2_def tr1_def intro!: exI[of _ k] exI[of _ "r # rs"])
    next
      case (Inr rs)
      with ser bq \<open>b = Inr r\<close> s2 have r: "res = Inr (r # rs)" "tr3 = tr4" by auto
      have "length rs = length ss"
        using ext(3) Inr by simp
      then show ?thesis
        unfolding r using ext Inr \<open>b = Inr r\<close> by (auto simp: tr2_def tr1_def)
    qed
  qed
qed

lemma transaction_connected_shape:
  "(\<exists>ext rs out.
      transaction_connected env ss cb tr0 =
        tr0 @ ext @ [Complete, Callback (fst cb) (case out of Inl err \<Rightarrow> CbErr err | Inr r \<Rightarrow> CbResults rs)] \<and>
      list_all quiet ext \<and> calls ext = (''BEGIN'', None) # ss @ [(''COMMIT'', None)] \<and>
      outcomes ext = map Inr rs @ [out] \<and> length rs = Suc (length ss))
   \<or> (\<exists>ext k rs e out.
      transaction_connected env ss cb tr0 =
        tr0 @ ext @ Callback (fst cb) (CbErr (case out of Inl err \<Rightarrow> err | Inr r \<Rightarrow> e)) #
          (if snd cb then [Complete] else []) \<and>
      list_all quiet ext \<and> k \<le> length ss \<and> length rs = k \<and>
      calls ext = (''BEGIN'', None) # take k ss @ [(''ROLLBACK'', None)] \<and>
      outcomes ext = map Inr rs @ [Inl e, out])"
proof -
  obtain res tr3 where ser:
    "async_series (client_query_call env ''BEGIN'' None # map (statement_task env) ss)
       (tr0 @ [DbInfo ''Transaction started...'']) = (res, tr3)"
    by (cases "async_series (client_query_call env ''BEGIN'' None # map (statement_task env) ss)
       (tr0 @ [DbInfo ''Transaction started...''])")
  from series_shape[OF ser] obtain ext where ext: "tr3 = tr0 @ ext" "list_all quiet ext"
     "(case res of
        Inr rs \<Rightarrow> calls ext = (''BEGIN'', None) # ss \<and> outcomes ext = map Inr rs \<and>
                  length rs = Suc (length ss)
      | Inl e \<Rightarrow> \<exists>k rs. k \<le> length ss \<and> length rs = k \<and>
                   calls ext = (''BEGIN'', None) # take k ss \<and>
                   outcomes ext = map Inr rs @ [Inl e])" by blast
  have tc: "transaction_connected env ss cb tr0 = series_done env cb res tr3"
    using ser by (simp add: transaction_connected_def)
  show ?thesis
  proof (cases res)
    case (Inr rs)
    define c where "c = client_query env (calls (tr3 @ [DbInfo ''Commit started...''])) ''COMMIT'' None"
    define ext' where "ext' = ext @ [DbInfo ''Commit started...'', ClientQuery ''COMMIT'' None c] @
        (case c of Inl err \<Rightarrow> [DbError (''Commit failed - '' @ message err), DbInfo ''Transaction complete!'']
                 | Inr r \<Rightarrow> [DbInfo ''Commit complete!'', DbInfo ''Transaction complete!''])"
    have "series_done env cb res tr3 =
        tr0 @ ext' @ [Complete, Callback (fst cb) (case c of Inl err \<Rightarrow> CbErr err | Inr r \<Rightarrow> CbResults rs)]"
      unfolding Inr ext(1) ext'_def c_def
      by (simp add: series_done_def invoke_def Let_def client_query_call_def split: sum.splits)
    moreover have "list_all quiet ext'"
      using ext(2) by (simp add: ext'_def split: sum.splits)
    moreover have "calls ext' = (''BEGIN'', None) # ss @ [(''COMMIT'', None)]"
      "outcomes ext' = map Inr rs @ [c]" "length rs = Suc (length ss)"
      using ext(3) Inr by (simp_all add: ext'_def split: sum.splits)
    ultimately show ?thesis unfolding tc by blast
  next
    case (Inl e)
    define c where "c = client_query env
       (calls (tr3 @ [DbError (message e), DbInfo ''Rollback started...''])) ''ROLLBACK'' None"
    define ext' where "ext' = ext @ [DbError (message e), DbInfo ''Rollback started...'',
         ClientQuery ''ROLLBACK'' None c] @
        (case c of Inl err \<Rightarrow> [DbError (''Rollback failed - '' @ message err), DbInfo ''Transaction complete!'']
                 | Inr r \<Rightarrow> [DbInfo ''Rollback complete!'', DbInfo ''Transaction complete!''])"
    from ext(3) Inl obtain k rs where k: "k \<le> length ss" "length rs = k"
        "calls ext = (''BEGIN'', None) # take k ss" "outcomes ext = map Inr rs @ [Inl e]"
      by auto
    have "series_done env cb res tr3 =
        tr0 @ ext' @ Callback (fst cb) (CbErr (case c of Inl err \<Rightarrow> err | Inr r \<Rightarrow> e)) #
          (if snd cb then [Complete] else [])"
      unfolding Inl ext(1) ext'_def c_def
      by (simp add: series_done_def invoke_def Let_def client_query_call_def split: sum.splits)
    moreover have "list_all quiet ext'"
      using ext(2) by (simp add: ext'_def split: sum.splits)
    moreover have "calls ext' = (''BEGIN'', None) # take k ss @ [(''ROLLBACK'', None)]"
      "outcomes ext' = map Inr rs @ [Inl e, c]"
      using k by (simp_all add: ext'_def split: sum.splits)
    ultimately show ?thesis unfolding tc using k(1,2) by blast
  qed
qed

lemmas run_defs = transaction_def transaction_connected_def series_done_def invoke_def statement_task_def
  client_query_call_def Let_def

lemma run_S2_fails:
  "transaction env_S2_fails batch3 Callable =
     Inr [IsFull False, Connect None, DbInfo ''Transaction started...'',
      ClientQuery ''BEGIN'' None (Inr ''rows of BEGIN''), DbLog ''S1'' [],
      ClientQuery ''S1'' None (Inr ''rows of S1''), DbLog ''S2'' [''p''],
      ClientQuery ''S2'' (Some [''p'']) (Inl (Error ''S2 failed'')), DbError ''S2 failed'',
      DbInfo ''Rollback started...'',
      ClientQuery ''ROLLBACK'' None (Inr ''rows of ROLLBACK''),
      DbInfo ''Rollback complete!'', DbInfo ''Transaction complete!'',
      Callback Caller (CbErr (Error ''S2 failed'')), Complete]"
  by (simp add: run_defs env_S2_fails_def env_ok_def batch3_def)

lemma run_ok:
  "transaction env_ok batch2 Callable =
     Inr [IsFull False, Connect None, DbInfo ''Transaction started...'',
      ClientQuery ''BEGIN'' None (Inr ''rows of BEGIN''), DbLog ''S1'' [],
      ClientQuery ''S1'' None (Inr ''rows of S1''), DbLog ''S2'' [],
      ClientQuery ''S2'' None (Inr ''rows of S2''),
      DbInfo ''Commit started...'',
      ClientQuery ''COMMIT'' None (Inr ''rows of COMMIT''),
      DbInfo ''Commit complete!'', DbInfo ''Transaction complete!'',
      Complete,
      Callback Caller (CbResults [''rows of BEGIN'', ''rows of S1'', ''rows of S2''])]"
  by (simp add: run_defs env_ok_def batch2_def)

lemma run_rollback_fails:
  "transaction env_rollback_fails batch3 Callable =
     Inr [IsFull False, Connect None, DbInfo ''Transaction started...'',
      ClientQuery ''BEGIN'' None (Inr ''rows of BEGIN''), DbLog ''S1'' [],
      ClientQuery ''S1'' None (Inr ''rows of S1''), DbLog ''S2'' [''p''],
      ClientQuery ''S2'' (Some [''p'']) (Inl (Error ''S2 failed'')), DbError ''S2 failed'',
      DbInfo ''Rollback started...'',
      ClientQuery ''ROLLBACK'' None (Inl (Error ''rollback failed'')),
      DbError ''Rollback failed - rollback failed'', DbInfo ''Transaction complete!'',
      Callback Caller (CbErr (Error ''rollback failed'')), Complete]"
  by (simp add: run_defs env_rollback_fails_def env_ok_def batch3_def)

lemma transaction_shape:
  assumes "transaction env pa cb = Inr tr"
  shows "tr = [IsFull True, Callback (handler_of cb) (CbErr (Error ''Pool is full''))]
    \<or> (\<exists>err. tr = [IsFull False, Connect (Some err), DbError (message err),
                      Callback (handler_of cb) (CbErr err)] @
                     (if returns cb then [Complete] else []))
    \<or> tr = transaction_connected env (statements_of pa) (handler_of cb, returns cb)
           [IsFull False, Connect None]"
  using assms by (auto simp: transaction_def invoke_def Let_def split: if_splits option.splits)

lemma run_query:
  "query env_S2_fails 3 ''SELECT 1'' (ParamsArray []) Callable =
     Inr [IsFull False, Connect None, QueryClient ''SELECT 1'' [] (Inr ''rows of SELECT 1''),
          Complete, Callback Caller (CbResult ''rows of SELECT 1'')]"
  by (simp add: query_def env_S2_fails_def env_ok_def)

lemma quiet_via_noop: "list_all quiet tr \<Longrightarrow> map via_noop tr = tr"
  by (induction tr rule: calls.induct) simp_all

lemma quiet_no_callback: "list_all quiet tr \<Longrightarrow> Callback h a \<notin> set tr"
  by (induction tr) auto

lemma series_done_via_noop:
  "map via_noop tr = tr \<Longrightarrow>
   map via_noop (series_done env (h, True) res tr) = series_done env (Noop, True) res tr"
  by (simp add: series_done_def invoke_def client_query_call_def Let_def split: sum.splits)

lemma transaction_connected_via_noop:
  assumes "map via_noop tr0 = tr0"
  shows "map via_noop (transaction_connected env ss (h, True) tr0) =
         transaction_connected env ss (Noop, True) tr0"
proof -
  obtain res tr3 where ser:
    "async_series (client_query_call env ''BEGIN'' None # map (statement_task env) ss)
       (tr0 @ [DbInfo ''Transaction started...'']) = (res, tr3)"
    by (cases "async_series (client_query_call env ''BEGIN'' None # map (statement_task env) ss)
       (tr0 @ [DbInfo ''Transaction started...''])")
  from series_shape[OF ser] obtain ext where "tr3 = tr0 @ ext" "list_all quiet ext"
    by blast
  with assms have "map via_noop tr3 = tr3"
    by (simp add: quiet_via_noop)
  then show ?thesis
    using ser by (simp add: transaction_connected_def series_done_via_noop)
qed

lemma run_connect_fails:
  "transaction env_connect_fails batch3 Callable =
     Inr [IsFull False, Connect (Some (Error ''connect failed'')), DbError ''connect failed'',
          Callback Caller (CbErr (Error ''connect failed'')), Complete]"
  by (simp add: transaction_def invoke_def env_connect_fails_def env_ok_def batch3_def)

lemma run_full:
  "transaction env_full batch2 cb =
     Inr [IsFull True, Callback (handler_of cb) (CbErr (Error ''Pool is full''))]"
  by (simp add: transaction_def invoke_def env_full_def env_ok_def batch2_def)

lemma run_query_full:
  "query env_full 3 ''SELECT 1'' (ParamsArray []) Callable =
     Inr [IsFull True, Callback Caller (CbErr (Error ''Pool is full''))]"
  by (simp add: query_def env_full_def env_ok_def)

lemma run_ok_noop:
  "transaction env_ok batch2 NotCallable =
     Inr [IsFull False, Connect None, DbInfo ''Transaction started...'',
      ClientQuery ''BEGIN'' None (Inr ''rows of BEGIN''), DbLog ''S1'' [],
      ClientQuery ''S1'' None (Inr ''rows of S1''), DbLog ''S2'' [],
      ClientQuery ''S2'' None (Inr ''rows of S2''),
      DbInfo ''Commit started...'',
      ClientQuery ''COMMIT'' None (Inr ''rows of COMMIT''),
      DbInfo ''Commit complete!'', DbInfo ''Transaction complete!'',
      Complete,
      Callback Noop (CbResults [''rows of BEGIN'', ''rows of S1'', ''rows of S2''])]"
  by (simp add: run_defs env_ok_def batch2_def)

lemma run_S2_fails_throwing:
  "transaction env_S2_fails batch3 Throwing =
     Inr [IsFull False, Connect None, DbInfo ''Transaction started...'',
      ClientQuery ''BEGIN'' None (Inr ''rows of BEGIN''), DbLog ''S1'' [],
      ClientQuery ''S1'' None (Inr ''rows of S1''), DbLog ''S2'' [''p''],
      ClientQuery ''S2'' (Some [''p'']) (Inl (Error ''S2 failed'')), DbError ''S2 failed'',
      DbInfo ''Rollback started...'',
      ClientQuery ''ROLLBACK'' None (Inr ''rows of ROLLBACK''),
      DbInfo ''Rollback complete!'', DbInfo ''Transaction complete!'',
      Callback Caller (CbErr (Error ''S2 failed''))]"
  by (simp add: run_defs env_S2_fails_def env_ok_def batch3_def)

lemma run_rollback_fails_throwing:
  "transaction env_rollback_fails batch3 Throwing =
     Inr [IsFull False, Connect None, DbInfo ''Transaction started...'',
      ClientQuery ''BEGIN'' None (Inr ''rows of BEGIN''), DbLog ''S1'' [],
      ClientQuery ''S1'' None (Inr ''rows of S1''), DbLog ''S2'' [''p''],
      ClientQuery ''S2'' (Some [''p'']) (Inl (Error ''S2 failed'')), DbError ''S2 failed'',
      DbInfo ''Rollback started...'',
      ClientQuery ''ROLLBACK'' None (Inl (Error ''rollback failed'')),
      DbError ''Rollback failed - rollback failed'', DbInfo ''Transaction complete!'',
      Callback Caller (CbErr (Error ''rollback failed''))]"
  by (simp add: run_defs env_rollback_fails_def env_ok_def batch3_def)

lemma run_connect_fails_throwing:
  "transaction env_connect_fails batch3 Throwing =
     Inr [IsFull False, Connect (Some (Error ''connect failed'')), DbError ''connect failed'',
          Callback Caller (CbErr (Error ''connect failed''))]"
  by (simp add: transaction_def invoke_def env_connect_fails_def env_ok_def batch3_def)

subsection \<open>Release of the connection\<close>

text \<open>With a completion that returns, every run of \<open>query\<close> and of \<open>transaction\<close> that
  reaches \<open>pool.connect\<close> calls \<open>complete()\<close> exactly once, and a run that does not reach
  it releases nothing; \<open>query\<close> does so with a completion that raises as well.\<close>

lemma release_once_when_completion_returns:
  "(query env argc q params cb = Inr tr \<longrightarrow>
      count_list tr Complete = (if list_ex is_connect tr then 1 else 0)) \<and>
   (transaction env pa cb' = Inr tr' \<and> returns cb' \<longrightarrow>
      count_list tr' Complete = (if list_ex is_connect tr' then 1 else 0))"
proof (intro conjI impI)
  assume "query env argc q params cb = Inr tr"
  then show "count_list tr Complete = (if list_ex is_connect tr then 1 else 0)"
    by (auto simp: query_def split: if_splits jsparams.splits option.splits sum.splits)
next
  assume a: "transaction env pa cb' = Inr tr' \<and> returns cb'"
  let ?tc = "transaction_connected env (statements_of pa) (handler_of cb', returns cb')
               [IsFull False, Connect None]"
  have "count_list ?tc Complete = 1 \<and> list_ex is_connect ?tc"
    using a transaction_connected_shape[of env "statements_of pa" "(handler_of cb', returns cb')"
        "[IsFull False, Connect None]"]
    by (auto simp: quiet_count_Complete)
  with a transaction_shape[of env pa cb' tr']
  show "count_list tr' Complete = (if list_ex is_connect tr' then 1 else 0)"
    by auto
qed

text \<open>
  Claim C1. The claim asks for exactly one release on every path of a run that acquired a
  connection. In \<open>transaction\<close> the release follows the completion on the rollback paths
  and on the failed-acquisition path, and nothing encloses the call of the completion:
  when the completion raises an exception there, \<open>complete()\<close> is not called at all. The
  three runs below reach \<open>pool.connect\<close>, end at the completion and release nothing.
\<close>

theorem release_skipped_when_completion_throws:
  "transaction env_S2_fails batch3 Throwing =
     Inr [IsFull False, Connect None, DbInfo ''Transaction started...'',
      ClientQuery ''BEGIN'' None (Inr ''rows of BEGIN''), DbLog ''S1'' [],
      ClientQuery ''S1'' None (Inr ''rows of S1''), DbLog ''S2'' [''p''],
      ClientQuery ''S2'' (Some [''p'']) (Inl (Error ''S2 failed'')), DbError ''S2 failed'',
      DbInfo ''Rollback started...'',
      ClientQuery ''ROLLBACK'' None (Inr ''rows of ROLLBACK''),
      DbInfo ''Rollback complete!'', DbInfo ''Transaction complete!'',
      Callback Caller (CbErr (Error ''S2 failed''))] \<and>
   list_ex is_connect (trace_of (transaction env_S2_fails batch3 Throwing)) \<and>
   count_list (trace_of (transaction env_S2_fails batch3 Throwing)) Complete = 0 \<and>
   list_ex is_connect (trace_of (transaction env_rollback_fails batch3 Throwing)) \<and>
   count_list (trace_of (transaction env_rollback_fails batch3 Throwing)) Complete = 0 \<and>
   list_ex is_connect (trace_of (transaction env_connect_fails batch3 Throwing)) \<and>
   count_list (trace_of (transaction env_connect_fails batch3 Throwing)) Complete = 0"
  by (simp add: run_S2_fails_throwing run_rollback_fails_throwing run_connect_fails_throwing)

subsection \<open>The batch transaction\<close>



text \<open>
  Claim C6. Once a client is acquired, the queries sent are \<open>BEGIN\<close>, then the first \<open>k\<close>
  supplied statements in the order given, then \<open>COMMIT\<close> or \<open>ROLLBACK\<close>. Every query
  before the last executed one succeeded, and when statements are left over
  (\<open>k\<close> below the length of the batch) the last executed one failed: the series stops at
  the first failure. For \<open>[S1, S2, S3]\<close> with \<open>S2\<close> failing the witness shows the queries
  \<open>BEGIN, S1, S2, ROLLBACK\<close>.
\<close>

theorem batch_runs_in_order_until_first_failure:
  assumes "transaction env pa cb = Inr tr" and "Connect None \<in> set tr"
  shows "\<exists>k\<le>length (statements_of pa).
           calls tr = (''BEGIN'', None) # take k (statements_of pa) @
              [if succeeded (outcomes tr ! k) then (''COMMIT'', None) else (''ROLLBACK'', None)] \<and>
           list_all succeeded (take k (outcomes tr)) \<and>
           (k < length (statements_of pa) \<longrightarrow> \<not> succeeded (outcomes tr ! k))"
proof -
  let ?tr0 = "[IsFull False, Connect None] :: 'a trace"
  let ?ss = "statements_of pa"
  from transaction_shape[OF assms(1)] assms(2)
  have tr: "tr = transaction_connected env ?ss (handler_of cb, returns cb) ?tr0"
    by auto
  from transaction_connected_shape[of env ?ss "(handler_of cb, returns cb)" ?tr0]
  show ?thesis
  proof (elim disjE exE conjE)
    fix ext rs out
    assume "transaction_connected env ?ss (handler_of cb, returns cb) ?tr0 =
        ?tr0 @ ext @ [Complete, Callback (fst (handler_of cb, returns cb))
           (case out of Inl err \<Rightarrow> CbErr err | Inr r \<Rightarrow> CbResults rs)]"
      and "calls ext = (''BEGIN'', None) # ?ss @ [(''COMMIT'', None)]"
      and "outcomes ext = map Inr rs @ [out]" and "length rs = Suc (length ?ss)"
    with tr have c: "calls tr = (''BEGIN'', None) # ?ss @ [(''COMMIT'', None)]"
      and o: "outcomes tr = map Inr rs @ [out]" and l: "length rs = Suc (length ?ss)"
      by simp_all
    have "succeeded (outcomes tr ! length ?ss)"
      using o l by (simp add: nth_append)
    moreover have "list_all succeeded (take (length ?ss) (outcomes tr))"
      using o l by (auto simp: list_all_iff dest!: in_set_takeD)
    ultimately show ?thesis
      using c by (intro exI[of _ "length ?ss"]) simp
  next
    fix ext k rs e' out
    assume "transaction_connected env ?ss (handler_of cb, returns cb) ?tr0 =
        ?tr0 @ ext @ Callback (fst (handler_of cb, returns cb))
           (CbErr (case out of Inl err \<Rightarrow> err | Inr r \<Rightarrow> e')) #
          (if snd (handler_of cb, returns cb) then [Complete] else [])"
      and k: "k \<le> length ?ss" "length rs = k"
      and "calls ext = (''BEGIN'', None) # take k ?ss @ [(''ROLLBACK'', None)]"
      and "outcomes ext = map Inr rs @ [Inl e', out]"
    with tr have c: "calls tr = (''BEGIN'', None) # take k ?ss @ [(''ROLLBACK'', None)]"
      and o: "outcomes tr = map Inr rs @ [Inl e', out]"
      by simp_all
    have "\<not> succeeded (outcomes tr ! k)"
      using o k by (simp add: nth_append)
    moreover have "list_all succeeded (take k (outcomes tr))"
      using o k by (auto simp: list_all_iff dest!: in_set_takeD)
    ultimately show ?thesis
      using c k by (intro exI[of _ k]) simp
  qed
qed

theorem batch_runs_in_order_until_first_failure_witness:
  "Connect None \<in> set (trace_of (transaction env_S2_fails batch3 Callable)) \<and>
   (\<exists>k\<le>length (statements_of batch3).
      calls (trace_of (transaction env_S2_fails batch3 Callable)) =
        (''BEGIN'', None) # take k (statements_of batch3) @
          [if succeeded (outcomes (trace_of (transaction env_S2_fails batch3 Callable)) ! k)
           then (''COMMIT'', None) else (''ROLLBACK'', None)] \<and>
      list_all succeeded (take k (outcomes (trace_of (transaction env_S2_fails batch3 Callable)))) \<and>
      (k < length (statements_of batch3) \<longrightarrow>
         \<not> succeeded (outcomes (trace_of (transaction env_S2_fails batch3 Callable)) ! k))) \<and>
   calls (trace_of (transaction env_S2_fails batch3 Callable)) =
     [(''BEGIN'', None), (''S1'', None), (''S2'', Some [''p'']), (''ROLLBACK'', None)]"
  using batch_runs_in_order_until_first_failure [of env_S2_fails batch3 Callable
      "trace_of (transaction env_S2_fails batch3 Callable)"]
  by (simp add: run_S2_fails)

text \<open>
  Claim C2, amended. When the \<open>BEGIN\<close> step and every supplied statement succeed, the
  queries sent are \<open>BEGIN\<close>, the statements in order and one \<open>COMMIT\<close>; when the commit
  succeeds too, the completion receives \<open>(null, results)\<close> where \<open>results\<close> holds the
  result of the \<open>BEGIN\<close> step followed by the results of the statements in execution
  order, since the series runs the \<open>BEGIN\<close> task as its first task.
\<close>

theorem commit_forwards_series_results:
  assumes "transaction env pa cb = Inr tr" and "Connect None \<in> set tr"
    and "list_all succeeded (butlast (outcomes tr))"
  shows "calls tr = (''BEGIN'', None) # statements_of pa @ [(''COMMIT'', None)] \<and>
         (succeeded (last (outcomes tr)) \<longrightarrow>
            (\<exists>rs. callbacks tr = [(handler_of cb, CbResults rs)] \<and>
                  map Inr rs = butlast (outcomes tr)))"
proof -
  let ?tr0 = "[IsFull False, Connect None] :: 'a trace"
  let ?ss = "statements_of pa"
  from transaction_shape[OF assms(1)] assms(2)
  have tr: "tr = transaction_connected env ?ss (handler_of cb, returns cb) ?tr0"
    by auto
  from transaction_connected_shape[of env ?ss "(handler_of cb, returns cb)" ?tr0]
  show ?thesis
  proof (elim disjE exE conjE)
    fix ext rs out
    assume "transaction_connected env ?ss (handler_of cb, returns cb) ?tr0 =
        ?tr0 @ ext @ [Complete, Callback (fst (handler_of cb, returns cb))
           (case out of Inl err \<Rightarrow> CbErr err | Inr r \<Rightarrow> CbResults rs)]"
      and "list_all quiet ext"
      and "calls ext = (''BEGIN'', None) # ?ss @ [(''COMMIT'', None)]"
      and "outcomes ext = map Inr rs @ [out]"
    with tr show ?thesis
      by (cases out) (auto simp: quiet_callbacks)
  next
    fix ext k rs e' out
    assume "transaction_connected env ?ss (handler_of cb, returns cb) ?tr0 =
        ?tr0 @ ext @ Callback (fst (handler_of cb, returns cb))
           (CbErr (case out of Inl err \<Rightarrow> err | Inr r \<Rightarrow> e')) #
          (if snd (handler_of cb, returns cb) then [Complete] else [])"
      and "outcomes ext = map Inr rs @ [Inl e', out]"
    with tr have "outcomes tr = map Inr rs @ [Inl e', out]" by simp
    with assms(3) show ?thesis by (simp add: butlast_append)
  qed
qed

theorem commit_forwards_series_results_witness:
  "calls (trace_of (transaction env_ok batch2 Callable)) =
     [(''BEGIN'', None), (''S1'', None), (''S2'', None), (''COMMIT'', None)] \<and>
   (\<exists>rs. callbacks (trace_of (transaction env_ok batch2 Callable)) = [(Caller, CbResults rs)] \<and>
         map Inr rs = butlast (outcomes (trace_of (transaction env_ok batch2 Callable))))"
  using commit_forwards_series_results [of env_ok batch2 Callable
      "trace_of (transaction env_ok batch2 Callable)"]
  unfolding run_ok by (simp add: batch2_def)

text \<open>For the batch \<open>[S1, S2]\<close> the completion does not receive
  \<open>[resultOf(S1), resultOf(S2)]\<close>: the array starts with the result of \<open>BEGIN\<close>.\<close>

theorem commit_results_counterexample:
  "list_all succeeded (outcomes (trace_of (transaction env_ok batch2 Callable))) \<and>
   callbacks (trace_of (transaction env_ok batch2 Callable)) \<noteq>
     [(Caller, CbResults [''rows of S1'', ''rows of S2''])] \<and>
   callbacks (trace_of (transaction env_ok batch2 Callable)) =
     [(Caller, CbResults [''rows of BEGIN'', ''rows of S1'', ''rows of S2''])]"
  by (simp add: run_ok)

text \<open>
  Claim C4. The claim asks for the release before the completion on every error outcome.
  In \<open>transaction\<close> the completion comes first on three of them: from the completion on,
  the trace is the completion followed by \<open>complete()\<close> when a statement fails and the
  rollback succeeds, when the rollback fails, and when the acquisition fails.
\<close>

theorem transaction_completion_precedes_release:
  "dropWhile (\<lambda>e. \<not> is_callback e) (trace_of (transaction env_S2_fails batch3 Callable)) =
     [Callback Caller (CbErr (Error ''S2 failed'')), Complete] \<and>
   dropWhile (\<lambda>e. \<not> is_callback e) (trace_of (transaction env_rollback_fails batch3 Callable)) =
     [Callback Caller (CbErr (Error ''rollback failed'')), Complete] \<and>
   dropWhile (\<lambda>e. \<not> is_callback e) (trace_of (transaction env_connect_fails batch3 Callable)) =
     [Callback Caller (CbErr (Error ''connect failed'')), Complete]"
  by (simp add: run_S2_fails run_rollback_fails run_connect_fails)

subsection \<open>Admission\<close>

text \<open>
  Claim C5. When \<open>pool._isFull()\<close> answers true, \<open>createTransaction\<close>, and every call of
  \<open>query\<close> and \<open>transaction\<close> that gets past its synchronous argument checks, does
  exactly two things: it asks the pool whether it is full and it invokes its completion
  with the error \<open>Pool is full\<close>. \<open>pool.connect\<close> is not called.
\<close>

theorem pool_full_fails_without_acquiring:
  assumes "pool_isFull env"
  shows "createTransaction env = [IsFull True, Callback Caller (CbErr (Error ''Pool is full''))] \<and>
    (query env argc q params cb = Inr tr \<longrightarrow>
       tr = [IsFull True, Callback Caller (CbErr (Error ''Pool is full''))]) \<and>
    (transaction env pa cb' = Inr tr' \<longrightarrow>
       tr' = [IsFull True, Callback (handler_of cb') (CbErr (Error ''Pool is full''))])"
  using assms
  by (auto simp: createTransaction_def query_def transaction_def invoke_def Let_def
      split: if_splits jsparams.splits)

theorem pool_full_fails_without_acquiring_witness:
  "pool_isFull env_full \<and>
   createTransaction env_full = [IsFull True, Callback Caller (CbErr (Error ''Pool is full''))] \<and>
   trace_of (query env_full 3 ''SELECT 1'' (ParamsArray []) Callable) =
     [IsFull True, Callback Caller (CbErr (Error ''Pool is full''))] \<and>
   trace_of (transaction env_full batch2 Callable) =
     [IsFull True, Callback Caller (CbErr (Error ''Pool is full''))]"
proof -
  have full: "pool_isFull env_full"
    by (simp add: env_full_def env_ok_def)
  show ?thesis
    using full pool_full_fails_without_acquiring [OF full, of 3 "''SELECT 1''" "ParamsArray []"
      Callable "trace_of (query env_full 3 ''SELECT 1'' (ParamsArray []) Callable)"
      batch2 Callable "trace_of (transaction env_full batch2 Callable)"]
    by (simp add: run_full run_query_full)
qed

subsection \<open>A completion that is not a function\<close>

text \<open>
  Claim C10. Called with a non-empty \<open>preparedArray\<close> and a completion that is not a
  function, \<open>transaction\<close> does not throw: it runs exactly as it does with a callable
  completion, except that every completion goes to the substituted no-op, so that the
  caller's value is never invoked and the outcome is discarded; once admitted and
  connected it starts the batch with \<open>BEGIN\<close>.
\<close>

theorem non_callable_completion_replaced_by_noop:
  assumes "prepared_length pa \<noteq> 0"
  shows "(\<exists>tr. transaction env pa Callable = Inr tr) \<and>
         transaction env pa NotCallable =
           Inr (map via_noop (trace_of (transaction env pa Callable))) \<and>
         (\<forall>a. Callback Caller a \<notin> set (trace_of (transaction env pa NotCallable))) \<and>
         (\<not> pool_isFull env \<and> pool_connect env = None \<longrightarrow>
            take 1 (calls (trace_of (transaction env pa NotCallable))) = [(''BEGIN'', None)])"
proof -
  let ?tr0 = "[IsFull False, Connect None] :: 'a trace"
  have same: "transaction env pa NotCallable =
           Inr (map via_noop (trace_of (transaction env pa Callable)))"
    using assms transaction_connected_via_noop[of ?tr0 env "statements_of pa" Caller]
    by (simp add: transaction_def invoke_def Let_def split: option.splits)
  have "Callback Caller a \<notin> set (map via_noop tr)" for a and tr :: "'a trace"
  proof (induction tr)
    case Nil
    show ?case by simp
  next
    case (Cons e tr)
    then show ?case by (cases e) auto
  qed
  with same have none: "\<forall>a. Callback Caller a \<notin> set (trace_of (transaction env pa NotCallable))"
    by simp
  have "take 1 (calls (transaction_connected env (statements_of pa) (Noop, True) ?tr0)) =
      [(''BEGIN'', None)]"
    using transaction_connected_shape[of env "statements_of pa" "(Noop, True)" ?tr0]
    by auto
  then have runs: "\<not> pool_isFull env \<and> pool_connect env = None \<longrightarrow>
            take 1 (calls (trace_of (transaction env pa NotCallable))) = [(''BEGIN'', None)]"
    using assms by (simp add: transaction_def Let_def)
  have "\<exists>tr. transaction env pa Callable = Inr tr"
    using assms by (simp add: transaction_def Let_def split: option.splits)
  with same none runs show ?thesis by blast
qed

theorem non_callable_completion_replaced_by_noop_witness:
  "prepared_length batch2 \<noteq> 0 \<and>
   callbacks (trace_of (transaction env_ok batch2 NotCallable)) =
     [(Noop, CbResults [''rows of BEGIN'', ''rows of S1'', ''rows of S2''])] \<and>
   calls (trace_of (transaction env_ok batch2 NotCallable)) =
     [(''BEGIN'', None), (''S1'', None), (''S2'', None), (''COMMIT'', None)] \<and>
   transaction env_ok batch2 NotCallable =
     Inr (map via_noop (trace_of (transaction env_ok batch2 Callable)))"
proof -
  have len: "prepared_length batch2 \<noteq> 0"
    by (simp add: batch2_def)
  show ?thesis
    using len non_callable_completion_replaced_by_noop [OF len, of env_ok]
    by (simp add: run_ok_noop run_ok)
qed

subsection \<open>Splitting and resolving column references\<close>

lemma split_from_not_Nil: "split_from sep cur s \<noteq> []"
  by (induction sep cur s rule: split_from.induct) auto

lemma join_Cons: "xs \<noteq> [] \<Longrightarrow> join sep (x # xs) = x @ sep @ join sep xs"
  by (cases xs) simp_all

lemma join_split_from: "join sep (split_from sep cur s) = cur @ s"
proof (induction sep cur s rule: split_from.induct)
  case (1 sep cur)
  show ?case by simp
next
  case (2 sep cur c cs)
  show ?case
  proof (cases "sep \<noteq> [] \<and> prefix sep (c # cs)")
    case True
    then have step: "split_from sep cur (c # cs) =
        cur # split_from sep [] (drop (length sep) (c # cs))"
      by simp
    from True have "take (length sep) (c # cs) = sep"
      by (auto simp: prefix_def)
    then have whole: "sep @ drop (length sep) (c # cs) = c # cs"
      by (metis append_take_drop_id)
    have "join sep (split_from sep cur (c # cs)) =
        cur @ sep @ join sep (split_from sep [] (drop (length sep) (c # cs)))"
      unfolding step by (rule join_Cons) (rule split_from_not_Nil)
    also have "\<dots> = cur @ sep @ drop (length sep) (c # cs)"
      using 2(1)[OF True] by simp
    finally show ?thesis
      using whole by simp
  next
    case False
    with 2 show ?thesis by auto
  qed
qed

lemma split_from_single:
  "sep \<noteq> [] \<Longrightarrow> (length (split_from sep cur s) = Suc 0) = (\<not> includes_str sep s)"
proof (induction sep cur s rule: split_from.induct)
  case (1 sep cur)
  then show ?case by simp
next
  case (2 sep cur c cs)
  show ?case
  proof (cases "prefix sep (c # cs)")
    case True
    with 2(3) show ?thesis
      using split_from_not_Nil[of sep "[]" "drop (length sep) (c # cs)"]
      by (auto simp: length_Suc_conv)
  next
    case False
    with 2 show ?thesis by auto
  qed
qed

lemma join_butlast_last:
  "2 \<le> length xs \<Longrightarrow> join sep (butlast xs) @ sep @ last xs = join sep xs"
proof (induction sep xs rule: join.induct)
  case (3 sep x y ys)
  show ?case
  proof (cases ys)
    case Nil
    then show ?thesis by simp
  next
    case (Cons z zs)
    with 3 show ?thesis by simp
  qed
qed simp_all

lemma split_single: "(length (split ''__'' c) = Suc 0) = (\<not> includes_str ''__'' c)"
  by (simp add: split_def split_from_single)

lemma chain_trailing:
  assumes "includes_str ''__'' c"
  shows "chain c @ ''__'' @ trailing c = c"
proof -
  have "length (split ''__'' c) \<noteq> Suc 0"
    using assms by (simp add: split_single)
  moreover have "split ''__'' c \<noteq> []"
    by (simp add: split_def split_from_not_Nil)
  ultimately have "2 \<le> length (split ''__'' c)"
    by (cases "split ''__'' c") (auto simp: Suc_le_eq)
  then have "chain c @ ''__'' @ trailing c = join ''__'' (split ''__'' c)"
    unfolding chain_def trailing_def by (rule join_butlast_last)
  then show ?thesis
    by (simp add: split_def join_split_from)
qed

lemma every_find_concat: "every_find p groups = find p (concat groups)"
proof (induction groups)
  case Nil
  show ?case by simp
next
  case (Cons g gs)
  have "find p (g @ xs) = (case find p g of Some j \<Rightarrow> Some j | None \<Rightarrow> find p xs)" for xs
    by (induction g) auto
  with Cons show ?case by (simp split: option.splits)
qed

lemma escapeColumn_plain:
  "\<not> includes_str ''__'' c \<Longrightarrow> escapeColumn esc t js c = Some (esc t @ ''.'' @ esc c)"
  by (simp add: escapeColumn_def Let_def split_single)

lemma escapeColumn_no_joins:
  "includes_str ''__'' c \<Longrightarrow> escapeColumn esc t None c = None"
  by (simp add: escapeColumn_def Let_def split_single)

lemma escapeColumn_joins:
  assumes "includes_str ''__'' c"
  shows "escapeColumn esc t (Some groups) c =
     (if \<exists>j\<in>set (concat groups). joinAlias j = chain c
      then Some (esc (chain c) @ ''.'' @ esc (trailing c))
      else Some (esc t @ ''.'' @ esc c))"
proof (cases "find (\<lambda>j. joinAlias j = chain c) (concat groups)")
  case None
  then have "\<not> (\<exists>j\<in>set (concat groups). joinAlias j = chain c)"
    by (simp only: find_None_iff) blast
  with None assms show ?thesis
    by (simp add: escapeColumn_def Let_def split_single every_find_concat chain_def del: set_concat)
next
  case (Some j)
  then have "joinAlias j = chain c" "j \<in> set (concat groups)"
    by (auto simp: find_Some_iff in_set_conv_nth simp del: set_concat)
  with Some assms show ?thesis
    by (auto simp: escapeColumn_def Let_def split_single every_find_concat chain_def trailing_def
        simp del: set_concat)
qed

lemma truthy_map_Some: "truthy (map Some xs) = filter (\<lambda>s. s \<noteq> []) xs"
  by (induction xs) auto

lemma escapeColumns_no_joins:
  "escapeColumns esc t None names =
     map (\<lambda>c. esc t @ ''.'' @ esc c) (filter (\<lambda>c. \<not> includes_str ''__'' c) names)"
  unfolding escapeColumns_def
proof (induction names)
  case Nil
  show ?case by simp
next
  case (Cons c names)
  then show ?case
    by (cases "includes_str ''__'' c") (simp_all add: escapeColumn_no_joins escapeColumn_plain)
qed


lemma fragment_unfold:
  "fst (generateOrderByClause esc t specs g js) =
     (let kept = filter (\<lambda>v. escapeColumns esc t js (columnNames v) \<noteq> []) specs in
        if kept = [] then []
        else '' ORDER BY '' @
          join '', ''
            (map (\<lambda>v. (case transformation v of
                          Some f \<Rightarrow> f (escapeColumns esc t js (columnNames v))
                        | None \<Rightarrow> hd (escapeColumns esc t js (columnNames v))) @
                       '' '' @ direction v)
               kept))"
proof -
  let ?assign = "\<lambda>v. v\<lparr>escapedColumns := Some (escapeColumns esc t js (columnNames v))\<rparr>"
  let ?kept = "filter (\<lambda>v. escapeColumns esc t js (columnNames v) \<noteq> []) specs"
  have f: "filter (\<lambda>v. escaped_length v \<noteq> 0) (map ?assign specs) = map ?assign ?kept"
    by (simp add: filter_map o_def escaped_length_def)
  have m: "map order_term (map ?assign ?kept) =
      map (\<lambda>v. (case transformation v of
                          Some f \<Rightarrow> f (escapeColumns esc t js (columnNames v))
                        | None \<Rightarrow> hd (escapeColumns esc t js (columnNames v))) @
                       '' '' @ direction v) ?kept"
    by (auto simp: order_term_def split: option.splits list.splits)
  show ?thesis
    unfolding generateOrderByClause_def Let_def fst_conv f m by simp
qed

lemma run_order_by_name:
  "generateOrderByClause escapeField_quote ''users'' [order_by_name] [] None =
     ('' ORDER BY '' @ [CHR 0x22] @ ''users'' @ [CHR 0x22] @ ''.'' @ [CHR 0x22] @ ''name'' @
        [CHR 0x22] @ '' ASC'',
      [order_by_name\<lparr>escapedColumns :=
         Some [[CHR 0x22] @ ''users'' @ [CHR 0x22] @ ''.'' @ [CHR 0x22] @ ''name'' @ [CHR 0x22]]\<rparr>])"
  by (simp add: generateOrderByClause_def escapeColumns_def escapeColumn_def split_def Let_def
      escaped_length_def order_term_def escapeField_quote_def order_by_name_def)

lemma run_order_by_bio:
  "fst (generateOrderByClause escapeField_quote ''users'' [order_by_bio] [] (Some joins_profile)) =
     '' ORDER BY '' @ [CHR 0x22] @ ''profile'' @ [CHR 0x22] @ ''.'' @ [CHR 0x22] @ ''bio'' @
        [CHR 0x22] @ '' DESC''"
  by (simp add: generateOrderByClause_def escapeColumns_def escapeColumn_def split_def Let_def
      escaped_length_def order_term_def escapeField_quote_def order_by_bio_def joins_profile_def)

lemma run_order_by_bio_no_joins:
  "fst (generateOrderByClause escapeField_quote ''users'' [order_by_bio] [] None) = []"
  by (simp add: generateOrderByClause_def escapeColumns_def escapeColumn_def split_def Let_def
      escaped_length_def order_term_def escapeField_quote_def order_by_bio_def)

lemma eval_bio: "includes_str ''__'' ''profile__bio''" "chain ''profile__bio'' = ''profile''"
  "trailing ''profile__bio'' = ''bio''" "\<not> includes_str ''__'' ''name''"
  by (simp_all add: chain_def trailing_def split_def)

lemma escapeColumn_not_empty: "escapeColumn esc t js c \<noteq> Some []"
  by (simp add: escapeColumn_def Let_def split: option.splits)

lemma escapeColumns_resolved:
  "escapeColumns esc t js names =
     concat (map (\<lambda>c. case escapeColumn esc t js c of None \<Rightarrow> [] | Some s \<Rightarrow> [s]) names)"
  unfolding escapeColumns_def
proof (induction names)
  case Nil
  show ?case by simp
next
  case (Cons c names)
  then show ?case
    using escapeColumn_not_empty[of esc t js c]
    by (cases "escapeColumn esc t js c") simp_all
qed

lemma escapeColumn_spec: "escapeColumn esc t js c = spec_resolve esc t js c"
proof (cases "includes_str ''__'' c")
  case False
  then show ?thesis
    by (simp add: escapeColumn_plain spec_resolve_def)
next
  case True
  show ?thesis
  proof (cases js)
    case None
    with True show ?thesis
      by (simp add: escapeColumn_no_joins spec_resolve_def)
  next
    case (Some groups)
    show ?thesis
    proof (cases "find (\<lambda>j. joinAlias j = chain c) (concat groups)")
      case None
      then have "\<not> (\<exists>j\<in>set (concat groups). joinAlias j = chain c)"
        by (simp only: find_None_iff) blast
      with None True Some show ?thesis
        by (simp add: escapeColumn_joins spec_resolve_def del: set_concat)
    next
      case (Some j)
      then have "joinAlias j = chain c" "j \<in> set (concat groups)"
        by (auto simp: find_Some_iff in_set_conv_nth simp del: set_concat)
      with Some True \<open>js = Some groups\<close> show ?thesis
        by (auto simp: escapeColumn_joins spec_resolve_def simp del: set_concat)
    qed
  qed
qed

lemma escapeColumns_spec:
  "escapeColumns esc t js (columnNames v) = spec_resolved_columns esc t js v"
proof -
  have same: "escapeColumn esc t js = spec_resolve esc t js"
    by (rule ext) (rule escapeColumn_spec)
  have "truthy (map (spec_resolve esc t js) names) = List.map_filter (spec_resolve esc t js) names"
    for names
  proof (induction names)
    case Nil
    show ?case by (simp add: map_filter_simps)
  next
    case (Cons c names)
    have "spec_resolve esc t js c \<noteq> Some []"
      using escapeColumn_not_empty[of esc t js c] by (simp add: same)
    with Cons show ?case
      by (cases "spec_resolve esc t js c") (simp_all add: map_filter_simps)
  qed
  then show ?thesis
    by (simp add: escapeColumns_def spec_resolved_columns_def same)
qed

lemma eval_spec_resolve:
  "spec_resolve escapeField_quote ''users'' js ''name'' =
     Some ([CHR 0x22] @ ''users'' @ [CHR 0x22] @ ''.'' @ [CHR 0x22] @ ''name'' @ [CHR 0x22])"
  "spec_resolve escapeField_quote ''users'' None ''profile__bio'' = None"
  "spec_resolve escapeField_quote ''users'' (Some joins_profile) ''profile__bio'' =
     Some ([CHR 0x22] @ ''profile'' @ [CHR 0x22] @ ''.'' @ [CHR 0x22] @ ''bio'' @ [CHR 0x22])"
  "spec_resolve escapeField_quote ''users'' (Some joins_owner) ''profile__bio'' =
     Some ([CHR 0x22] @ ''users'' @ [CHR 0x22] @ ''.'' @ [CHR 0x22] @ ''profile__bio'' @ [CHR 0x22])"
  by (simp_all add: spec_resolve_def eval_bio escapeField_quote_def joins_profile_def
      joins_owner_def)

subsection \<open>The ORDER BY fragment\<close>

text \<open>
  Claim C7. The builder resolves every column reference of every order spec as the
  specification words it (\<open>spec_resolve\<close>): a reference without the separator \<open>__\<close> is
  qualified with the base table. A reference with the separator is the chain, the
  separator and the trailing segment; the join groups are searched group by group, entry
  by entry, and the first entry whose alias is the chain decides: the reference is
  qualified with that alias and the trailing segment. When no entry matches, it is
  qualified with the base table and keeps the full reference as the column name. When no
  join groups are passed, the reference resolves to nothing and is dropped from the list,
  which keeps exactly the resolved references. The builder stores that list on each order
  spec, and its fragment is built from the order specs whose list is not empty, in order:
  an order spec whose list of resolved columns is empty is dropped.
\<close>

theorem column_reference_resolution:
  "snd (generateOrderByClause esc t specs g js) =
     map (\<lambda>v. v\<lparr>escapedColumns := Some (spec_resolved_columns esc t js v)\<rparr>) specs \<and>
   fst (generateOrderByClause esc t specs g js) =
     (let kept = filter (\<lambda>v. spec_resolved_columns esc t js v \<noteq> []) specs in
        if kept = [] then []
        else '' ORDER BY '' @
          join '', ''
            (map (\<lambda>v. (case transformation v of
                          Some f \<Rightarrow> f (spec_resolved_columns esc t js v)
                        | None \<Rightarrow> hd (spec_resolved_columns esc t js v)) @
                       '' '' @ direction v)
               kept)) \<and>
   escapeColumn esc t js c = spec_resolve esc t js c \<and>
   (\<not> includes_str ''__'' c \<longrightarrow> escapeColumn esc t js c = Some (esc t @ ''.'' @ esc c)) \<and>
   (includes_str ''__'' c \<longrightarrow>
      chain c @ ''__'' @ trailing c = c \<and>
      escapeColumn esc t None c = None \<and>
      escapeColumn esc t (Some groups) c =
        (if \<exists>j\<in>set (concat groups). joinAlias j = chain c
         then Some (esc (chain c) @ ''.'' @ esc (trailing c))
         else Some (esc t @ ''.'' @ esc c))) \<and>
   every_find p groups = find p (concat groups) \<and>
   escapeColumns esc t js names =
     concat (map (\<lambda>c. case escapeColumn esc t js c of None \<Rightarrow> [] | Some s \<Rightarrow> [s]) names) \<and>
   escapeColumns esc t None names =
     map (\<lambda>c. esc t @ ''.'' @ esc c) (filter (\<lambda>c. \<not> includes_str ''__'' c) names) \<and>
   fst (generateOrderByClause esc t specs g js) =
     fst (generateOrderByClause esc t
            (filter (\<lambda>v. escapeColumns esc t js (columnNames v) \<noteq> []) specs) g js)"
proof -
  have stored: "snd (generateOrderByClause esc t specs g js) =
     map (\<lambda>v. v\<lparr>escapedColumns := Some (spec_resolved_columns esc t js v)\<rparr>) specs"
    by (simp add: generateOrderByClause_def Let_def escapeColumns_spec)
  have fragment: "fst (generateOrderByClause esc t specs g js) =
     (let kept = filter (\<lambda>v. spec_resolved_columns esc t js v \<noteq> []) specs in
        if kept = [] then []
        else '' ORDER BY '' @
          join '', ''
            (map (\<lambda>v. (case transformation v of
                          Some f \<Rightarrow> f (spec_resolved_columns esc t js v)
                        | None \<Rightarrow> hd (spec_resolved_columns esc t js v)) @
                       '' '' @ direction v)
               kept))"
    using fragment_unfold[of esc t specs g js] by (simp only: escapeColumns_spec)
  have dropped: "fst (generateOrderByClause esc t specs g js) =
     fst (generateOrderByClause esc t
            (filter (\<lambda>v. escapeColumns esc t js (columnNames v) \<noteq> []) specs) g js)"
    by (simp add: fragment_unfold)
  have cases: "(\<not> includes_str ''__'' c \<longrightarrow> escapeColumn esc t js c = Some (esc t @ ''.'' @ esc c)) \<and>
   (includes_str ''__'' c \<longrightarrow>
      chain c @ ''__'' @ trailing c = c \<and>
      escapeColumn esc t None c = None \<and>
      escapeColumn esc t (Some groups) c =
        (if \<exists>j\<in>set (concat groups). joinAlias j = chain c
         then Some (esc (chain c) @ ''.'' @ esc (trailing c))
         else Some (esc t @ ''.'' @ esc c)))"
    using escapeColumn_plain[of c esc t js] escapeColumn_no_joins[of c esc t]
      escapeColumn_joins[of c esc t groups] chain_trailing[of c]
    by (simp del: set_concat)
  show ?thesis
    using stored fragment dropped cases escapeColumn_spec[of esc t js c]
      every_find_concat[of p groups] escapeColumns_no_joins[of esc t names]
      escapeColumns_resolved[of esc t js names]
    by blast
qed

theorem column_reference_resolution_witness:
  "\<not> includes_str ''__'' ''name'' \<and> includes_str ''__'' ''profile__bio'' \<and>
   fst (generateOrderByClause escapeField_quote ''users'' [order_by_bio, order_by_name] [] None) =
     '' ORDER BY '' @ [CHR 0x22] @ ''users'' @ [CHR 0x22] @ ''.'' @ [CHR 0x22] @ ''name'' @
        [CHR 0x22] @ '' ASC'' \<and>
   fst (generateOrderByClause escapeField_quote ''users'' [order_by_bio] [] (Some joins_profile)) =
     '' ORDER BY '' @ [CHR 0x22] @ ''profile'' @ [CHR 0x22] @ ''.'' @ [CHR 0x22] @ ''bio'' @
        [CHR 0x22] @ '' DESC'' \<and>
   fst (generateOrderByClause escapeField_quote ''users'' [order_by_bio] [] (Some joins_owner)) =
     '' ORDER BY '' @ [CHR 0x22] @ ''users'' @ [CHR 0x22] @ ''.'' @ [CHR 0x22] @
        ''profile__bio'' @ [CHR 0x22] @ '' DESC'' \<and>
   fst (generateOrderByClause escapeField_quote ''users'' [order_by_bio] [] None) = [] \<and>
   snd (generateOrderByClause escapeField_quote ''users'' [order_by_bio, order_by_name] []
          (Some joins_profile)) =
     [order_by_bio\<lparr>escapedColumns :=
         Some [[CHR 0x22] @ ''profile'' @ [CHR 0x22] @ ''.'' @ [CHR 0x22] @ ''bio'' @ [CHR 0x22]]\<rparr>,
      order_by_name\<lparr>escapedColumns :=
         Some [[CHR 0x22] @ ''users'' @ [CHR 0x22] @ ''.'' @ [CHR 0x22] @ ''name'' @ [CHR 0x22]]\<rparr>] \<and>
   escapeColumn escapeField_quote ''users'' None ''name'' =
     Some (escapeField_quote ''users'' @ ''.'' @ escapeField_quote ''name'') \<and>
   escapeColumn escapeField_quote ''users'' None ''profile__bio'' = None \<and>
   escapeColumn escapeField_quote ''users'' (Some joins_profile) ''profile__bio'' =
     Some (escapeField_quote ''profile'' @ ''.'' @ escapeField_quote ''bio'') \<and>
   escapeColumn escapeField_quote ''users'' (Some joins_owner) ''profile__bio'' =
     Some (escapeField_quote ''users'' @ ''.'' @ escapeField_quote ''profile__bio'')"
proof -
  note plain = column_reference_resolution [where esc = escapeField_quote and t = "''users''"
      and specs = "[order_by_bio, order_by_name]" and g = "[]" and js = None
      and c = "''name''" and groups = joins_profile and p = "\<lambda>j. True" and names = "[]"]
  note found = column_reference_resolution [where esc = escapeField_quote and t = "''users''"
      and specs = "[order_by_bio]" and g = "[]" and js = "Some joins_profile"
      and c = "''profile__bio''" and groups = joins_profile and p = "\<lambda>j. True" and names = "[]"]
  note missed = column_reference_resolution [where esc = escapeField_quote and t = "''users''"
      and specs = "[order_by_bio]" and g = "[]" and js = "Some joins_owner"
      and c = "''profile__bio''" and groups = joins_owner and p = "\<lambda>j. True" and names = "[]"]
  note none = column_reference_resolution [where esc = escapeField_quote and t = "''users''"
      and specs = "[order_by_bio]" and g = "[]" and js = None
      and c = "''profile__bio''" and groups = joins_profile and p = "\<lambda>j. True" and names = "[]"]
  note both = column_reference_resolution [where esc = escapeField_quote and t = "''users''"
      and specs = "[order_by_bio, order_by_name]" and g = "[]" and js = "Some joins_profile"
      and c = "''name''" and groups = joins_profile and p = "\<lambda>j. True" and names = "[]"]
  have cols:
    "spec_resolved_columns escapeField_quote ''users'' None order_by_bio = []"
    "spec_resolved_columns escapeField_quote ''users'' js order_by_name =
       [[CHR 0x22] @ ''users'' @ [CHR 0x22] @ ''.'' @ [CHR 0x22] @ ''name'' @ [CHR 0x22]]"
    "spec_resolved_columns escapeField_quote ''users'' (Some joins_profile) order_by_bio =
       [[CHR 0x22] @ ''profile'' @ [CHR 0x22] @ ''.'' @ [CHR 0x22] @ ''bio'' @ [CHR 0x22]]"
    "spec_resolved_columns escapeField_quote ''users'' (Some joins_owner) order_by_bio =
       [[CHR 0x22] @ ''users'' @ [CHR 0x22] @ ''.'' @ [CHR 0x22] @ ''profile__bio'' @ [CHR 0x22]]"
    for js
    by (simp_all add: spec_resolved_columns_def map_filter_simps eval_spec_resolve
        order_by_bio_def order_by_name_def)
  have dirs: "direction order_by_bio = ''DESC''" "direction order_by_name = ''ASC''"
    "transformation order_by_bio = None" "transformation order_by_name = None"
    by (simp_all add: order_by_bio_def order_by_name_def)
  have f1: "fst (generateOrderByClause escapeField_quote ''users'' [order_by_bio, order_by_name]
                   [] None) =
     '' ORDER BY '' @ [CHR 0x22] @ ''users'' @ [CHR 0x22] @ ''.'' @ [CHR 0x22] @ ''name'' @
        [CHR 0x22] @ '' ASC''"
    using plain by (simp add: cols dirs)
  have f2: "fst (generateOrderByClause escapeField_quote ''users'' [order_by_bio] []
                   (Some joins_profile)) =
     '' ORDER BY '' @ [CHR 0x22] @ ''profile'' @ [CHR 0x22] @ ''.'' @ [CHR 0x22] @ ''bio'' @
        [CHR 0x22] @ '' DESC''"
    using found by (simp add: cols dirs)
  have f3: "fst (generateOrderByClause escapeField_quote ''users'' [order_by_bio] []
                   (Some joins_owner)) =
     '' ORDER BY '' @ [CHR 0x22] @ ''users'' @ [CHR 0x22] @ ''.'' @ [CHR 0x22] @
        ''profile__bio'' @ [CHR 0x22] @ '' DESC''"
    using missed by (simp add: cols dirs)
  have f4: "fst (generateOrderByClause escapeField_quote ''users'' [order_by_bio] [] None) = []"
    using none by (simp add: cols dirs)
  have s1: "snd (generateOrderByClause escapeField_quote ''users'' [order_by_bio, order_by_name] []
          (Some joins_profile)) =
     [order_by_bio\<lparr>escapedColumns :=
         Some [[CHR 0x22] @ ''profile'' @ [CHR 0x22] @ ''.'' @ [CHR 0x22] @ ''bio'' @ [CHR 0x22]]\<rparr>,
      order_by_name\<lparr>escapedColumns :=
         Some [[CHR 0x22] @ ''users'' @ [CHR 0x22] @ ''.'' @ [CHR 0x22] @ ''name'' @ [CHR 0x22]]\<rparr>]"
    using both by (simp add: cols)
  have e1: "escapeColumn escapeField_quote ''users'' None ''name'' =
     Some (escapeField_quote ''users'' @ ''.'' @ escapeField_quote ''name'')"
    using plain by (simp add: eval_bio eval_spec_resolve escapeField_quote_def)
  have e2: "escapeColumn escapeField_quote ''users'' None ''profile__bio'' = None"
    using none by (simp add: eval_bio eval_spec_resolve escapeField_quote_def)
  have e3: "escapeColumn escapeField_quote ''users'' (Some joins_profile) ''profile__bio'' =
     Some (escapeField_quote ''profile'' @ ''.'' @ escapeField_quote ''bio'')"
    using found by (simp add: eval_bio eval_spec_resolve escapeField_quote_def)
  have e4: "escapeColumn escapeField_quote ''users'' (Some joins_owner) ''profile__bio'' =
     Some (escapeField_quote ''users'' @ ''.'' @ escapeField_quote ''profile__bio'')"
    using missed by (simp add: eval_bio eval_spec_resolve escapeField_quote_def)
  from f1 f2 f3 f4 s1 e1 e2 e3 e4 show ?thesis
    by (simp add: eval_bio)
qed

text \<open>
  Claim C8, amended. The fragment is the empty string when no order spec keeps a resolved
  column; otherwise it is the terms of the remaining specs joined with a comma and a
  space, after the prefix \<open>ORDER BY\<close> written with a space before and after it. A term is
  the transformation applied to the resolved columns (the first resolved column when
  there is none), a space and the direction. For the table \<open>users\<close>, the spec with the
  column \<open>name\<close> and the direction \<open>ASC\<close>, and no joins, the fragment is
  \<open>ORDER BY "users"."name" ASC\<close> with one space in front.
\<close>

theorem order_by_fragment:
  "fst (generateOrderByClause esc t specs g js) =
     (let kept = filter (\<lambda>v. escapeColumns esc t js (columnNames v) \<noteq> []) specs in
        if kept = [] then []
        else '' ORDER BY '' @
          join '', ''
            (map (\<lambda>v. (case transformation v of
                          Some f \<Rightarrow> f (escapeColumns esc t js (columnNames v))
                        | None \<Rightarrow> hd (escapeColumns esc t js (columnNames v))) @
                       '' '' @ direction v)
               kept)) \<and>
   fst (generateOrderByClause escapeField_quote ''users'' [order_by_name] [] None) =
     '' ORDER BY '' @ [CHR 0x22] @ ''users'' @ [CHR 0x22] @ ''.'' @ [CHR 0x22] @ ''name'' @
        [CHR 0x22] @ '' ASC''"
  using fragment_unfold[of esc t specs g js] by (simp add: run_order_by_name)

text \<open>The fragment of the example is not the string that starts with \<open>ORDER\<close>.\<close>

theorem order_by_prefix_counterexample:
  "fst (generateOrderByClause escapeField_quote ''users'' [order_by_name] [] None) \<noteq>
     ''ORDER BY '' @ [CHR 0x22] @ ''users'' @ [CHR 0x22] @ ''.'' @ [CHR 0x22] @ ''name'' @
        [CHR 0x22] @ '' ASC''"
  by (simp add: run_order_by_name)

text \<open>
  Claim C9, amended. The builder gives the same fragment when it runs again, also on the
  order specs as the first run left them. It does write to its input: each order spec
  gets its \<open>escapedColumns\<close> set to the resolved columns, and nothing else changes; a
  second run leaves the specs as the first one did.
\<close>

theorem order_by_rerun:
  "fst (generateOrderByClause esc t (snd (generateOrderByClause esc t specs g js)) g js) =
     fst (generateOrderByClause esc t specs g js) \<and>
   snd (generateOrderByClause esc t specs g js) =
     map (\<lambda>v. v\<lparr>escapedColumns := Some (escapeColumns esc t js (columnNames v))\<rparr>) specs \<and>
   snd (generateOrderByClause esc t (snd (generateOrderByClause esc t specs g js)) g js) =
     snd (generateOrderByClause esc t specs g js)"
proof -
  let ?assign = "\<lambda>v. v\<lparr>escapedColumns := Some (escapeColumns esc t js (columnNames v))\<rparr>"
  have s: "snd (generateOrderByClause esc t xs g js) = map ?assign xs" for xs
    by (simp add: generateOrderByClause_def Let_def)
  have "fst (generateOrderByClause esc t (map ?assign specs) g js) =
     fst (generateOrderByClause esc t specs g js)"
    by (simp add: generateOrderByClause_def Let_def o_def)
  then show ?thesis
    by (simp add: s o_def)
qed

text \<open>After the call the order spec of the example is not the one that was passed.\<close>

theorem order_by_mutates_counterexample:
  "snd (generateOrderByClause escapeField_quote ''users'' [order_by_name] [] None) \<noteq>
     [order_by_name]"
  unfolding run_order_by_name by (simp add: order_by_name_def)

end
